theory Spec2Isabelle
  imports Main "HOL-Library.Sublist"
begin

section \<open>Python strings\<close>

text \<open>
  A Python \<open>str\<close> is a sequence of Unicode code points. It is modelled as a list of
  natural numbers, one per code point, so that slicing and \<open>len\<close> count code points
  as Python does. \<open>ascii\<close> turns an ASCII literal into such a string.
\<close>

type_synonym pystr = "nat list"

definition ascii :: "string \<Rightarrow> pystr" where
  "ascii s = map of_char s"

text \<open>
  \<open>str.isspace\<close> on one code point, which is what \<open>str.strip()\<close> without argument
  removes: U+0009..U+000D, U+001C..U+0020, U+0085, U+00A0, U+1680, U+2000..U+200A,
  U+2028, U+2029, U+202F, U+205F and U+3000.
\<close>

definition isspace :: "nat \<Rightarrow> bool" where
  "isspace c \<longleftrightarrow>
     (9 \<le> c \<and> c \<le> 13) \<or> (28 \<le> c \<and> c \<le> 32) \<or> c = 133 \<or> c = 160 \<or> c = 5760 \<or>
     (8192 \<le> c \<and> c \<le> 8202) \<or> c = 8232 \<or> c = 8233 \<or> c = 8239 \<or> c = 8287 \<or> c = 12288"

text \<open>\<open>s.strip()\<close>: the string without its leading and trailing whitespace.\<close>

definition strip :: "pystr \<Rightarrow> pystr" where
  "strip s = rev (dropWhile isspace (rev (dropWhile isspace s)))"

text \<open>\<open>s.startswith(p)\<close> and \<open>p in s\<close> (substring test).\<close>

definition startswith :: "pystr \<Rightarrow> pystr \<Rightarrow> bool" where
  "startswith s p = prefix p s"

definition py_in :: "pystr \<Rightarrow> pystr \<Rightarrow> bool" where
  "py_in p s = sublist p s"

text \<open>
  \<open>s.split('\n')\<close>: the pieces of \<open>s\<close> between newlines (code point 10). The result
  is never empty: the empty string splits into one empty piece, and a final newline
  gives a final empty piece.
\<close>

fun split_nl :: "pystr \<Rightarrow> pystr list" where
  "split_nl [] = [[]]"
| "split_nl (c # cs) =
     (if c = 10 then [] # split_nl cs
      else (case split_nl cs of [] \<Rightarrow> [[c]] | l # ls \<Rightarrow> (c # l) # ls))"

text \<open>\<open>'\n'.join(xs)\<close>.\<close>

fun join_nl :: "pystr list \<Rightarrow> pystr" where
  "join_nl [] = []"
| "join_nl [x] = x"
| "join_nl (x # y # ys) = x @ [10] @ join_nl (y # ys)"

section \<open>Response parsing\<close>

text \<open>
  \<^verbatim>\<open>
  def parse_response(response_text):
      info = {"solutions": "", "to_solve": "", "pps": ""}
      current_key = None
      for line in response_text.split('\n'):
          if "Existing AR/VR Solutions" in line:
              current_key = "solutions"
          elif "Problems to be Solved" in line:
              current_key = "to_solve"
          elif "Proposed Problem Statement" in line:
              current_key = "pps"
          elif current_key:
              if current_key == "pps":
                  info["pps"] += line.strip() + " "
              elif line.strip().startswith("-"):
                  info[current_key] += line.strip() + "\n"
      return info
  \<close>
  The dictionary is a map from keys to strings; \<open>info[k] += v\<close> reads the key first
  and raises \<open>KeyError\<close> when it is missing, which is a branch of the model.
\<close>

datatype py_error = KeyError string | ServiceError pystr

type_synonym info = "string \<rightharpoonup> pystr"

definition mk_info :: "pystr \<Rightarrow> pystr \<Rightarrow> pystr \<Rightarrow> info" where
  "mk_info s t p = [''solutions'' \<mapsto> s, ''to_solve'' \<mapsto> t, ''pps'' \<mapsto> p]"

definition hdr_solutions :: pystr where
  "hdr_solutions = ascii ''Existing AR/VR Solutions''"

definition hdr_to_solve :: pystr where
  "hdr_to_solve = ascii ''Problems to be Solved''"

definition hdr_pps :: pystr where
  "hdr_pps = ascii ''Proposed Problem Statement''"

definition dict_add :: "info \<Rightarrow> string \<Rightarrow> pystr \<Rightarrow> py_error + info" where
  "dict_add d k v = (case d k of None \<Rightarrow> Inl (KeyError k) | Some old \<Rightarrow> Inr (d(k \<mapsto> old @ v)))"

text \<open>One iteration of the loop, on the pair of \<open>info\<close> and \<open>current_key\<close>.\<close>

definition parse_line :: "info \<times> string option \<Rightarrow> pystr \<Rightarrow> py_error + info \<times> string option" where
  "parse_line st line =
     (let info = fst st; current_key = snd st in
      if py_in hdr_solutions line then Inr (info, Some ''solutions'')
      else if py_in hdr_to_solve line then Inr (info, Some ''to_solve'')
      else if py_in hdr_pps line then Inr (info, Some ''pps'')
      else (case current_key of
              None \<Rightarrow> Inr (info, current_key)
            | Some k \<Rightarrow>
                if k = [] then Inr (info, current_key)
                else if k = ''pps'' then
                  (case dict_add info ''pps'' (strip line @ ascii '' '') of
                     Inl e \<Rightarrow> Inl e
                   | Inr info' \<Rightarrow> Inr (info', current_key))
                else if startswith (strip line) (ascii ''-'') then
                  (case dict_add info k (strip line @ [10]) of
                     Inl e \<Rightarrow> Inl e
                   | Inr info' \<Rightarrow> Inr (info', current_key))
                else Inr (info, current_key)))"

fun parse_loop :: "info \<times> string option \<Rightarrow> pystr list \<Rightarrow> py_error + info \<times> string option" where
  "parse_loop st [] = Inr st"
| "parse_loop st (line # rest) =
     (case parse_line st line of Inl e \<Rightarrow> Inl e | Inr st' \<Rightarrow> parse_loop st' rest)"

definition parse_response :: "pystr \<Rightarrow> py_error + info" where
  "parse_response response_text =
     (case parse_loop (mk_info [] [] [], None) (split_nl response_text) of
        Inl e \<Rightarrow> Inl e
      | Inr st \<Rightarrow> Inr (fst st))"

text \<open>
  Notions derived from the loop body, used to state and prove its properties:
  which section a line opens (the first three branches of the \<open>if\<close> chain, in the
  code's order), whether a line is a header line at all, and whether it is a bullet
  line (\<open>line.strip().startswith("-")\<close>).
\<close>

definition header_key :: "pystr \<Rightarrow> string option" where
  "header_key line =
     (if py_in hdr_solutions line then Some ''solutions''
      else if py_in hdr_to_solve line then Some ''to_solve''
      else if py_in hdr_pps line then Some ''pps''
      else None)"

definition is_header :: "pystr \<Rightarrow> bool" where
  "is_header line \<longleftrightarrow> py_in hdr_solutions line \<or> py_in hdr_to_solve line \<or> py_in hdr_pps line"

definition is_bullet :: "pystr \<Rightarrow> bool" where
  "is_bullet line = startswith (strip line) (ascii ''-'')"

text \<open>
  The text one line adds to field \<open>k\<close> when it is read with \<open>current_key = ck\<close>, the
  value of \<open>current_key\<close> after the line, and both extended to a list of lines. The
  lemmas below show that the loop computes exactly these.
\<close>

definition chunk :: "string option \<Rightarrow> pystr \<Rightarrow> string \<Rightarrow> pystr" where
  "chunk ck line k =
     (if is_header line \<or> ck \<noteq> Some k then []
      else if k = ''pps'' then strip line @ ascii '' ''
      else if is_bullet line then strip line @ [10]
      else [])"

definition next_key :: "string option \<Rightarrow> pystr \<Rightarrow> string option" where
  "next_key ck line = (case header_key line of None \<Rightarrow> ck | Some k \<Rightarrow> Some k)"

fun emit :: "string option \<Rightarrow> pystr list \<Rightarrow> string \<Rightarrow> pystr" where
  "emit ck [] k = []"
| "emit ck (l # ls) k = chunk ck l k @ emit (next_key ck l) ls k"

fun final_key :: "string option \<Rightarrow> pystr list \<Rightarrow> string option" where
  "final_key ck [] = ck"
| "final_key ck (l # ls) = final_key (next_key ck l) ls"

definition good_key :: "string option \<Rightarrow> bool" where
  "good_key ck \<longleftrightarrow>
     ck = None \<or> ck = Some ''solutions'' \<or> ck = Some ''to_solve'' \<or> ck = Some ''pps''"

section \<open>The pipeline and its external services\<close>

text \<open>
  The PDF decoder, the generative model, the spreadsheet service, the clock and
  \<open>os.path.splitext\<close> are libraries outside the program. Their behaviour is a
  parameter of the model: each call either returns a value or raises, and a raise is
  the value \<open>Inl e\<close>. \<open>duplicate_widget\<close> is the exception that the page library
  raises when a script places two identical widgets.
\<close>

type_synonym bytes = "char list"

type_synonym row = "pystr list"

datatype worksheet = Worksheet nat

record datetime =
  year :: nat
  month :: nat
  day :: nat
  hour :: nat
  minute :: nat
  second :: nat

record services =
  pdf_pages :: "bytes \<Rightarrow> py_error + pystr list"
  genai_configure :: "pystr \<Rightarrow> py_error option"
  generate_content :: "pystr \<Rightarrow> py_error + pystr"
  open_sheet1 :: "(string \<times> pystr) list \<Rightarrow> pystr \<Rightarrow> py_error + worksheet"
  append_row_error :: "worksheet \<Rightarrow> row \<Rightarrow> py_error option"
  now :: datetime
  splitext_root :: "pystr \<Rightarrow> pystr"
  duplicate_widget :: py_error

text \<open>
  What a run can change and what the properties below observe: the messages shown with
  \<open>st.error\<close>, the values given to the progress bar, the prompts passed to
  \<open>model.generate_content\<close>, and the rows of each worksheet. The other rendering calls
  (status text, success banners, the result panels) only write to the page and are left
  out.
\<close>

record world =
  ui_errors :: "pystr list"
  progress :: "nat list"
  prompts :: "pystr list"
  sheet_rows :: "worksheet \<Rightarrow> row list"

record config =
  gemini_api_key :: pystr
  service_account_data :: "(string \<times> pystr) list"
  spreadsheet_name :: pystr
  document_base_link :: pystr

record upload =
  file_name :: pystr
  file_bytes :: bytes

text \<open>\<open>str(e)\<close>: a \<open>KeyError\<close> prints the \<open>repr\<close> of its key.\<close>

definition error_str :: "py_error \<Rightarrow> pystr" where
  "error_str e = (case e of KeyError k \<Rightarrow> [39] @ ascii k @ [39] | ServiceError m \<Rightarrow> m)"

definition st_error :: "pystr \<Rightarrow> world \<Rightarrow> world" where
  "st_error msg w = w\<lparr>ui_errors := ui_errors w @ [msg]\<rparr>"

definition set_progress :: "nat \<Rightarrow> world \<Rightarrow> world" where
  "set_progress n w = w\<lparr>progress := progress w @ [n]\<rparr>"

subsection \<open>Text extraction\<close>

text \<open>
  \<^verbatim>\<open>
  def read_pdf_text(pdf_bytes):
      try:
          ...
          doc = fitz.open(tmp_path)
          text = "\n".join([page.get_text() for page in doc])
          ...
          return text
      except Exception as e:
          st.error(f"Error reading PDF: {str(e)}")
          return None
  \<close>
  \<open>pdf_pages\<close> stands for everything in the \<open>try\<close> block: writing the temporary file,
  opening it and reading the text of every page in order. The function is decorated with
  \<open>st.cache_data\<close>, which only saves repeating the call on the same bytes.
\<close>

definition read_pdf_text :: "services \<Rightarrow> bytes \<Rightarrow> world \<Rightarrow> pystr option \<times> world" where
  "read_pdf_text sv pdf_bytes w =
     (case pdf_pages sv pdf_bytes of
        Inl e \<Rightarrow> (None, st_error (ascii ''Error reading PDF: '' @ error_str e) w)
      | Inr pages \<Rightarrow> (Some (join_nl pages), w))"

subsection \<open>Summarization request\<close>

text \<open>
  The prompt is an f-string: a fixed template, then \<open>text[:30000]\<close>, then a newline.
  The template starts with a newline (the text begins on the line after the opening
  quotes); U+2013 is the code point 8211.
\<close>

definition prompt_template_lines :: "pystr list" where
  "prompt_template_lines =
     [[],
      ascii ''You are an AI assistant helping a team building an AR/VR solution for performing surgeries.'',
      [],
      ascii ''From the document below, extract and summarize:'',
      [],
      ascii ''1. **Existing AR/VR Solutions in Surgery** '' @ [8211] @ ascii '' Any tools, systems, or research already using AR/VR for surgical training, planning, or execution.'',
      [],
      ascii ''2. **Problems to be Solved** '' @ [8211] @ ascii '' Gaps, limitations, or open challenges in the field that need to be addressed.'',
      [],
      ascii ''3. **Proposed Problem Statement** '' @ [8211] @ ascii '' Based on these gaps, suggest a clear and concise problem statement that an AR/VR-based surgical solution could address.'',
      [],
      ascii ''Format exactly like this:'',
      [],
      ascii ''Existing AR/VR Solutions:'',
      ascii ''- ...'',
      [],
      ascii ''Problems to be Solved:'',
      ascii ''- ...'',
      [],
      ascii ''Proposed Problem Statement:'',
      ascii ''...'',
      [],
      ascii ''TEXT:'']"

definition build_prompt :: "pystr \<Rightarrow> pystr" where
  "build_prompt text = join_nl prompt_template_lines @ [10] @ take 30000 text @ [10]"

text \<open>
  \<^verbatim>\<open>
  def extract_info_with_gemini(text, api_key):
      try:
          genai.configure(api_key=api_key)
          model = genai.GenerativeModel("models/gemini-1.5-flash")
          prompt = f"""..."""
          response = model.generate_content(prompt)
          return response.text
      except Exception as e:
          st.error(f"Error with Gemini AI: {str(e)}")
          return None
  \<close>
\<close>

definition extract_info_with_gemini ::
    "services \<Rightarrow> pystr \<Rightarrow> pystr \<Rightarrow> world \<Rightarrow> pystr option \<times> world" where
  "extract_info_with_gemini sv text api_key w =
     (case genai_configure sv api_key of
        Some e \<Rightarrow> (None, st_error (ascii ''Error with Gemini AI: '' @ error_str e) w)
      | None \<Rightarrow>
          let prompt = build_prompt text;
              w' = w\<lparr>prompts := prompts w @ [prompt]\<rparr>
          in (case generate_content sv prompt of
                Inl e \<Rightarrow> (None, st_error (ascii ''Error with Gemini AI: '' @ error_str e) w')
              | Inr response_text \<Rightarrow> (Some response_text, w')))"

subsection \<open>Sheet append\<close>

text \<open>
  \<^verbatim>\<open>
  def setup_google_sheets(service_account_data, spreadsheet_name):
      try:
          ...
          sheet = client.open(spreadsheet_name).sheet1
          return sheet
      except Exception as e:
          st.error(f"Error setting up Google Sheets: {str(e)}")
          return None
  \<close>
  A worksheet object is truthy, so \<open>if not sheet\<close> in \<open>main\<close> holds for \<open>None\<close> only.
\<close>

definition setup_google_sheets ::
    "services \<Rightarrow> (string \<times> pystr) list \<Rightarrow> pystr \<Rightarrow> world \<Rightarrow> worksheet option \<times> world" where
  "setup_google_sheets sv sa_data name w =
     (case open_sheet1 sv sa_data name of
        Inl e \<Rightarrow> (None, st_error (ascii ''Error setting up Google Sheets: '' @ error_str e) w)
      | Inr sheet \<Rightarrow> (Some sheet, w))"

text \<open>
  \<open>strftime("%Y-%m-%d %H:%M:%S")\<close>: decimal numbers padded with zeros, four digits
  for the year (as Python documents it) and two for the other fields. \<open>datetime\<close>
  holds years 1 to 9999 only.
\<close>

fun decimal :: "nat \<Rightarrow> pystr" where
  "decimal n = (if n < 10 then [48 + n] else decimal (n div 10) @ [48 + n mod 10])"

declare decimal.simps [simp del]

definition zfill :: "nat \<Rightarrow> pystr \<Rightarrow> pystr" where
  "zfill width s = replicate (width - length s) 48 @ s"

definition strftime_ymd_hms :: "datetime \<Rightarrow> pystr" where
  "strftime_ymd_hms d =
     zfill 4 (decimal (year d)) @ ascii ''-'' @ zfill 2 (decimal (month d)) @ ascii ''-'' @
     zfill 2 (decimal (day d)) @ ascii '' '' @ zfill 2 (decimal (hour d)) @ ascii '':'' @
     zfill 2 (decimal (minute d)) @ ascii '':'' @ zfill 2 (decimal (second d))"

definition valid_datetime :: "datetime \<Rightarrow> bool" where
  "valid_datetime d \<longleftrightarrow>
     1 \<le> year d \<and> year d \<le> 9999 \<and> 1 \<le> month d \<and> month d \<le> 12 \<and> 1 \<le> day d \<and> day d \<le> 31 \<and>
     hour d \<le> 23 \<and> minute d \<le> 59 \<and> second d \<le> 59"

text \<open>
  The shape of a string: every decimal digit replaced by \<open>None\<close>, every other code
  point kept. A timestamp \<open>YYYY-MM-DD HH:MM:SS\<close> has the shape \<open>timestamp_shape\<close>.
\<close>

definition shape :: "pystr \<Rightarrow> nat option list" where
  "shape s = map (\<lambda>c. if 48 \<le> c \<and> c \<le> 57 then None else Some c) s"

definition timestamp_shape :: "nat option list" where
  "timestamp_shape =
     [None, None, None, None, Some 45, None, None, Some 45, None, None, Some 32,
      None, None, Some 58, None, None, Some 58, None, None]"

definition dict_get :: "info \<Rightarrow> string \<Rightarrow> py_error + pystr" where
  "dict_get d k = (case d k of None \<Rightarrow> Inl (KeyError k) | Some v \<Rightarrow> Inr v)"

text \<open>
  \<^verbatim>\<open>
  def update_sheet(sheet, info, pdf_name, document_link=""):
      try:
          timestamp = datetime.now().strftime("%Y-%m-%d %H:%M:%S")
          sheet.append_row([
              pdf_name,
              document_link,
              info["pps"].strip(),
              info["solutions"].strip(),
              info["to_solve"].strip(),
              timestamp
          ])
          return True
      except Exception as e:
          st.error(f"Error updating sheet: {str(e)}")
          return False
  \<close>
\<close>

definition update_sheet ::
    "services \<Rightarrow> worksheet \<Rightarrow> info \<Rightarrow> pystr \<Rightarrow> pystr \<Rightarrow> world \<Rightarrow> bool \<times> world" where
  "update_sheet sv sheet info pdf_name document_link w =
     (let timestamp = strftime_ymd_hms (now sv);
          failed = (\<lambda>e. (False, st_error (ascii ''Error updating sheet: '' @ error_str e) w))
      in case dict_get info ''pps'' of
           Inl e \<Rightarrow> failed e
         | Inr pps \<Rightarrow>
             (case dict_get info ''solutions'' of
                Inl e \<Rightarrow> failed e
              | Inr solutions \<Rightarrow>
                  (case dict_get info ''to_solve'' of
                     Inl e \<Rightarrow> failed e
                   | Inr to_solve \<Rightarrow>
                       let r = [pdf_name, document_link, strip pps, strip solutions,
                                strip to_solve, timestamp]
                       in (case append_row_error sv sheet r of
                             Some e \<Rightarrow> failed e
                           | None \<Rightarrow>
                               (True, w\<lparr>sheet_rows := (sheet_rows w)(sheet := sheet_rows w sheet @ [r])\<rparr>)))))"

subsection \<open>Orchestration\<close>

text \<open>
  \<^verbatim>\<open>
  def main():
      uploaded_file = st.file_uploader(...)
      if uploaded_file is not None:
          pdf_name = os.path.splitext(uploaded_file.name)[0]
          if st.button(...):
              try:
                  progress_bar = st.progress(0)
                  progress_bar.progress(20)
                  pdf_text = read_pdf_text(uploaded_file.read())
                  if not pdf_text:
                      st.error("Failed to extract text from PDF")
                      return
                  progress_bar.progress(40)
                  ai_response = extract_info_with_gemini(pdf_text, gemini_api_key)
                  if not ai_response:
                      st.error("Failed to extract information with AI")
                      return
                  progress_bar.progress(60)
                  info_data = parse_response(ai_response)
                  progress_bar.progress(80)
                  sheet = setup_google_sheets(service_account_data, spreadsheet_name)
                  if not sheet:
                      st.error("Failed to setup Google Sheets connection")
                      return
                  progress_bar.progress(100)
                  success = update_sheet(sheet, info_data, pdf_name, document_base_link)
                  if success:
                      ...
                      with col1:
                          st.text_area("", info_data["solutions"], height=200, disabled=True)
                          st.text_area("", info_data["to_solve"], height=200, disabled=True)
                      with col2:
                          st.text_area("", info_data["pps"], height=200, disabled=True)
                          ...
                  else:
                      ...
              except Exception as e:
                  st.error(f"An error occurred: {str(e)}")
                  progress_bar.empty()
                  status_text.empty()
  \<close>
  \<open>not x\<close> holds for \<open>None\<close> and for the empty string. The stage functions catch
  their own exceptions. The handler at the end is reached from \<open>parse_response\<close> and
  from the result panels: the three \<open>st.text_area\<close> calls have the same label and
  options, so a panel whose text equals the text of a panel placed before it is an
  identical widget and the call raises. This happens after the row has been appended.
  The handler also clears the progress bar and the status text; \<open>progress\<close> records
  the values given to the bar, and the clearing is not recorded.
\<close>

definition falsy :: "pystr option \<Rightarrow> bool" where
  "falsy x = (case x of None \<Rightarrow> True | Some s \<Rightarrow> s = [])"

text \<open>The string held by a value that is not \<open>None\<close>; it is only used on such values.\<close>

definition str_of :: "pystr option \<Rightarrow> pystr" where
  "str_of x = (case x of None \<Rightarrow> [] | Some s \<Rightarrow> s)"

text \<open>
  \<open>st.text_area("", value, height=200, disabled=True)\<close>, given the values of the text
  areas placed so far in this run.
\<close>

definition text_area :: "services \<Rightarrow> pystr list \<Rightarrow> pystr \<Rightarrow> py_error + pystr list" where
  "text_area sv placed v =
     (if v \<in> set placed then Inl (duplicate_widget sv) else Inr (placed @ [v]))"

text \<open>The result panels, in the order of the calls; \<open>Some e\<close> is the exception raised.\<close>

definition show_results :: "services \<Rightarrow> info \<Rightarrow> py_error option" where
  "show_results sv info_data =
     (case dict_get info_data ''solutions'' of
        Inl e \<Rightarrow> Some e
      | Inr solutions \<Rightarrow>
          (case text_area sv [] solutions of
             Inl e \<Rightarrow> Some e
           | Inr placed1 \<Rightarrow>
               (case dict_get info_data ''to_solve'' of
                  Inl e \<Rightarrow> Some e
                | Inr to_solve \<Rightarrow>
                    (case text_area sv placed1 to_solve of
                       Inl e \<Rightarrow> Some e
                     | Inr placed2 \<Rightarrow>
                         (case dict_get info_data ''pps'' of
                            Inl e \<Rightarrow> Some e
                          | Inr pps \<Rightarrow>
                              (case text_area sv placed2 pps of
                                 Inl e \<Rightarrow> Some e
                               | Inr placed3 \<Rightarrow> None))))))"

definition main :: "services \<Rightarrow> config \<Rightarrow> upload option \<Rightarrow> bool \<Rightarrow> world \<Rightarrow> world" where
  "main sv cfg uploaded_file button w =
     (case uploaded_file of
        None \<Rightarrow> w
      | Some f \<Rightarrow>
          if \<not> button then w
          else
            (let pdf_name = splitext_root sv (file_name f);
                 w1 = set_progress 20 (set_progress 0 w)
             in case read_pdf_text sv (file_bytes f) w1 of
                  (pdf_text, w2) \<Rightarrow>
                    if falsy pdf_text then st_error (ascii ''Failed to extract text from PDF'') w2
                    else
                      (case extract_info_with_gemini sv (str_of pdf_text)
                              (gemini_api_key cfg) (set_progress 40 w2) of
                         (ai_response, w3) \<Rightarrow>
                           if falsy ai_response then
                             st_error (ascii ''Failed to extract information with AI'') w3
                           else
                             (case parse_response (str_of ai_response) of
                                Inl e \<Rightarrow>
                                  st_error (ascii ''An error occurred: '' @ error_str e)
                                    (set_progress 60 w3)
                              | Inr info_data \<Rightarrow>
                                  (case setup_google_sheets sv (service_account_data cfg)
                                          (spreadsheet_name cfg)
                                          (set_progress 80 (set_progress 60 w3)) of
                                     (None, w4) \<Rightarrow>
                                       st_error (ascii ''Failed to setup Google Sheets connection'') w4
                                   | (Some sheet, w4) \<Rightarrow>
                                       (case update_sheet sv sheet info_data pdf_name
                                               (document_base_link cfg) (set_progress 100 w4) of
                                          (success, w5) \<Rightarrow>
                                            if success then
                                              (case show_results sv info_data of
                                                 Some e \<Rightarrow>
                                                   st_error (ascii ''An error occurred: '' @ error_str e) w5
                                               | None \<Rightarrow> w5)
                                            else w5))))))"

subsection \<open>Example services\<close>

text \<open>
  Concrete services, a configuration and an initial world on which runs are evaluated: a
  decoder that raises on an empty buffer, returns one page without text for the buffer
  \<open>blank\<close> and two pages otherwise; a model that always answers with a problem
  statement; a spreadsheet service that always succeeds; a fixed clock.
\<close>

definition demo_services :: services where
  "demo_services =
     \<lparr>pdf_pages = (\<lambda>b. if b = [] then Inl (ServiceError (ascii ''cannot open empty document''))
                         else if b = ''blank'' then Inr [[]]
                         else Inr [ascii ''page one'', ascii ''page two'']),
      genai_configure = (\<lambda>key. None),
      generate_content = (\<lambda>prompt. Inr (ascii ''Proposed Problem Statement:'' @ [10] @ ascii ''x'')),
      open_sheet1 = (\<lambda>creds name. Inr (Worksheet 0)),
      append_row_error = (\<lambda>sheet r. None),
      now = \<lparr>year = 2026, month = 11, day = 3, hour = 9, minute = 5, second = 7\<rparr>,
      splitext_root = (\<lambda>name. takeWhile (\<lambda>c. c \<noteq> 46) name),
      duplicate_widget = ServiceError (ascii ''multiple identical st.text_area widgets'')\<rparr>"

definition demo_world :: world where
  "demo_world = \<lparr>ui_errors = [], progress = [], prompts = [], sheet_rows = (\<lambda>sheet. [])\<rparr>"

definition demo_config :: config where
  "demo_config =
     \<lparr>gemini_api_key = ascii ''key'', service_account_data = [],
      spreadsheet_name = ascii ''VR-FOR-SURGERIES'', document_base_link = []\<rparr>"

section \<open>Lemmas on strings\<close>

lemma split_nl_nonempty: "split_nl s \<noteq> []"
  by (induction s) (auto split: list.splits)

lemma split_nl_no_newline: "l \<in> set (split_nl s) \<Longrightarrow> 10 \<notin> set l"
proof (induction s arbitrary: l)
  case Nil
  then show ?case by simp
next
  case (Cons c cs)
  then show ?case
    by (cases "split_nl cs") (auto split: if_splits)
qed

lemma join_nl_Cons: "ls \<noteq> [] \<Longrightarrow> join_nl (l # ls) = l @ [10] @ join_nl ls"
  by (cases ls) simp_all

lemma join_split_nl: "join_nl (split_nl s) = s"
proof (induction s)
  case Nil
  then show ?case by simp
next
  case (Cons c cs)
  show ?case
  proof (cases "split_nl cs")
    case Nil
    then show ?thesis using split_nl_nonempty [of cs] by simp
  next
    case (Cons l ls)
    then show ?thesis using Cons.IH
      by (cases ls) (auto simp add: split_nl_nonempty join_nl_Cons)
  qed
qed

lemma split_nl_line: "10 \<notin> set l \<Longrightarrow> split_nl l = [l]"
  by (induction l) auto

lemma split_nl_append: "10 \<notin> set l \<Longrightarrow> split_nl (l @ 10 # s) = l # split_nl s"
  by (induction l) auto

lemma split_join_nl:
  "ls \<noteq> [] \<Longrightarrow> \<forall>l\<in>set ls. 10 \<notin> set l \<Longrightarrow> split_nl (join_nl ls) = ls"
proof (induction ls rule: join_nl.induct)
  case 1
  then show ?case by simp
next
  case (2 x)
  then show ?case by (simp add: split_nl_line)
next
  case (3 x y ys)
  then show ?case by (simp add: split_nl_append)
qed

lemma line_sublist: "l \<in> set (split_nl s) \<Longrightarrow> sublist l s"
proof -
  have "\<forall>l\<in>set ls. sublist l (join_nl ls)" for ls :: "pystr list"
  proof (induction ls rule: join_nl.induct)
    case 1
    then show ?case by simp
  next
    case (2 x)
    then show ?case by simp
  next
    case (3 x y ys)
    have "sublist l (x @ [10] @ join_nl (y # ys))" if "sublist l (join_nl (y # ys))" for l
      using that by (metis append.assoc sublist_append_leftI sublist_order.order_trans)
    with 3 show ?case by auto
  qed
  then show "l \<in> set (split_nl s) \<Longrightarrow> sublist l s"
    using join_split_nl [of s] by metis
qed

lemma strip_sublist: "sublist (strip l) l"
proof -
  have "sublist (rev (dropWhile isspace (rev (dropWhile isspace l)))) (dropWhile isspace l)"
    by (metis sublist_dropWhile sublist_rev_left)
  then show ?thesis
    unfolding strip_def using sublist_dropWhile sublist_order.order_trans by blast
qed

section \<open>What the parsing loop computes\<close>

lemma mk_info_apply [simp]:
  "mk_info s t p ''solutions'' = Some s"
  "mk_info s t p ''to_solve'' = Some t"
  "mk_info s t p ''pps'' = Some p"
  by (simp_all add: mk_info_def)

lemma mk_info_upd [simp]:
  "(mk_info s t p)(''solutions'' \<mapsto> x) = mk_info x t p"
  "(mk_info s t p)(''to_solve'' \<mapsto> x) = mk_info s x p"
  "(mk_info s t p)(''pps'' \<mapsto> x) = mk_info s t x"
  by (auto simp add: mk_info_def fun_eq_iff)

lemma mk_info_eq_iff [simp]: "mk_info s t p = mk_info s' t' p' \<longleftrightarrow> s = s' \<and> t = t' \<and> p = p'"
proof
  assume e: "mk_info s t p = mk_info s' t' p'"
  have "mk_info s t p ''solutions'' = mk_info s' t' p' ''solutions''"
       "mk_info s t p ''to_solve'' = mk_info s' t' p' ''to_solve''"
       "mk_info s t p ''pps'' = mk_info s' t' p' ''pps''"
    using e by simp_all
  then show "s = s' \<and> t = t' \<and> p = p'" by simp
qed simp

lemma header_key_None: "header_key l = None \<longleftrightarrow> \<not> is_header l"
  by (simp add: header_key_def is_header_def)

lemma good_header_key: "good_key (header_key l)"
  by (simp add: header_key_def good_key_def)

lemma good_next_key: "good_key ck \<Longrightarrow> good_key (next_key ck l)"
  using good_header_key [of l] by (auto simp add: next_key_def split: option.splits)

lemma parse_line_view:
  assumes "good_key ck"
  shows "parse_line (mk_info s t p, ck) l =
           Inr (mk_info (s @ chunk ck l ''solutions'') (t @ chunk ck l ''to_solve'')
                  (p @ chunk ck l ''pps''), next_key ck l)"
proof (cases "is_header l")
  case True
  then show ?thesis
    by (auto simp add: parse_line_def chunk_def next_key_def header_key_def is_header_def)
next
  case False
  then have nh: "\<not> py_in hdr_solutions l" "\<not> py_in hdr_to_solve l" "\<not> py_in hdr_pps l"
    by (simp_all add: is_header_def)
  from assms consider "ck = None" | "ck = Some ''solutions''" | "ck = Some ''to_solve''" | "ck = Some ''pps''"
    by (auto simp add: good_key_def)
  then show ?thesis
  proof cases
    case 1
    then show ?thesis using nh
      by (simp add: parse_line_def chunk_def next_key_def header_key_def)
  next
    case 2
    then show ?thesis using nh
      by (simp add: parse_line_def chunk_def next_key_def header_key_def dict_add_def is_bullet_def is_header_def)
  next
    case 3
    then show ?thesis using nh
      by (simp add: parse_line_def chunk_def next_key_def header_key_def dict_add_def is_bullet_def is_header_def)
  next
    case 4
    then show ?thesis using nh
      by (simp add: parse_line_def chunk_def next_key_def header_key_def dict_add_def is_bullet_def is_header_def)
  qed
qed

lemma parse_loop_view:
  "good_key ck \<Longrightarrow>
   parse_loop (mk_info s t p, ck) ls =
     Inr (mk_info (s @ emit ck ls ''solutions'') (t @ emit ck ls ''to_solve'')
            (p @ emit ck ls ''pps''), final_key ck ls)"
proof (induction ls arbitrary: s t p ck)
  case Nil
  then show ?case by simp
next
  case (Cons l ls)
  then show ?case
    by (simp add: parse_line_view good_next_key)
qed

lemma parse_response_view:
  "parse_response text =
     Inr (mk_info (emit None (split_nl text) ''solutions'') (emit None (split_nl text) ''to_solve'')
            (emit None (split_nl text) ''pps''))"
  using parse_loop_view [of None "[]" "[]" "[]" "split_nl text"]
  by (simp add: parse_response_def good_key_def)

lemma emit_append: "emit ck (xs @ ys) k = emit ck xs k @ emit (final_key ck xs) ys k"
  by (induction xs arbitrary: ck) simp_all

lemma final_key_append: "final_key ck (xs @ ys) = final_key (final_key ck xs) ys"
  by (induction xs arbitrary: ck) simp_all

lemmas eval_defs =
  ascii_def chunk_def next_key_def header_key_def is_header_def is_bullet_def py_in_def
  startswith_def strip_def isspace_def hdr_solutions_def hdr_to_solve_def hdr_pps_def sublist_code

lemma next_key_plain: "\<not> is_header l \<Longrightarrow> next_key ck l = ck"
  by (simp add: next_key_def header_key_None [symmetric])

lemma next_key_header: "header_key h = Some k \<Longrightarrow> next_key ck h = Some k"
  by (simp add: next_key_def)

lemma header_key_is_header: "header_key h = Some k \<Longrightarrow> is_header h"
  using header_key_None [of h] by auto

lemma header_key_cases:
  "header_key h = Some k \<Longrightarrow> k = ''solutions'' \<or> k = ''to_solve'' \<or> k = ''pps''"
  by (auto simp add: header_key_def split: if_splits)

lemma final_key_plain: "\<forall>l\<in>set ls. \<not> is_header l \<Longrightarrow> final_key ck ls = ck"
  by (induction ls arbitrary: ck) (simp_all add: next_key_plain)

lemma final_key_section:
  "header_key h = Some k \<Longrightarrow> \<forall>m\<in>set mid. \<not> is_header m \<Longrightarrow>
   final_key ck (pre @ h # mid) = Some k"
  by (simp add: final_key_append next_key_header final_key_plain)

lemma chunk_header: "is_header l \<Longrightarrow> chunk ck l k = []"
  by (simp add: chunk_def)

lemma emit_None_plain: "\<forall>l\<in>set ls. \<not> is_header l \<Longrightarrow> emit None ls k = []"
  by (induction ls) (simp_all add: next_key_plain chunk_def)

lemma emit_other_plain:
  "\<forall>l\<in>set ls. \<not> is_header l \<Longrightarrow> k' \<noteq> k \<Longrightarrow> emit (Some k) ls k' = []"
  by (induction ls) (auto simp add: next_key_plain chunk_def)

lemma emit_pps_plain:
  "\<forall>l\<in>set ls. \<not> is_header l \<Longrightarrow>
   emit (Some ''pps'') ls ''pps'' = concat (map (\<lambda>l. strip l @ ascii '' '') ls)"
  by (induction ls) (simp_all add: next_key_plain chunk_def)

lemma emit_bullets_plain:
  "\<forall>l\<in>set ls. \<not> is_header l \<Longrightarrow> k \<noteq> ''pps'' \<Longrightarrow>
   emit (Some k) ls k = concat (map (\<lambda>l. strip l @ [10]) (filter is_bullet ls))"
  by (induction ls) (simp_all add: next_key_plain chunk_def)

lemma emit_header_first: "header_key h = Some k \<Longrightarrow> emit ck (h # ls) k' = emit (Some k) ls k'"
  by (simp add: chunk_header header_key_is_header next_key_header)

lemma split_nl_join_rest:
  assumes "split_nl text = pre @ rest" "rest \<noteq> []"
  shows "split_nl (join_nl rest) = rest"
proof -
  have "\<forall>l\<in>set rest. 10 \<notin> set l"
    using split_nl_no_newline [of _ "text"] assms(1) by simp
  with assms(2) show ?thesis by (rule split_join_nl)
qed

lemma chunk_None: "chunk None l k = []"
  by (simp add: chunk_def)

lemma dropWhile_keeps:
  "p \<noteq> [] \<Longrightarrow> \<not> P (hd p) \<Longrightarrow> \<exists>ps'. dropWhile P (ps @ p @ ss) = ps' @ p @ ss"
proof (induction ps)
  case Nil
  then have "dropWhile P (p @ ss) = p @ ss" by (cases p) simp_all
  then show ?case by (metis append_Nil)
next
  case (Cons a ps)
  show ?case
  proof (cases "P a")
    case True
    then show ?thesis using Cons by simp
  next
    case False
    then have "dropWhile P ((a # ps) @ p @ ss) = (a # ps) @ p @ ss" by simp
    then show ?thesis by blast
  qed
qed

lemma sublist_strip:
  assumes "sublist p l" "p \<noteq> []" "\<not> isspace (hd p)" "\<not> isspace (last p)"
  shows "sublist p (strip l)"
proof -
  from assms(1) obtain ps ss where l: "l = ps @ p @ ss" by (auto simp add: sublist_def)
  from dropWhile_keeps [of p isspace ps ss] assms(2,3) obtain ps' where
    d1: "dropWhile isspace (ps @ p @ ss) = ps' @ p @ ss" by blast
  have "rev p \<noteq> []" "\<not> isspace (hd (rev p))"
    using assms(2,4) by (simp_all add: hd_rev)
  from dropWhile_keeps [of "rev p" isspace "rev ss" "rev ps'"] this obtain ss' where
    d2: "dropWhile isspace (rev ss @ rev p @ rev ps') = ss' @ rev p @ rev ps'" by blast
  have "strip l = ps' @ p @ rev ss'"
    using l d1 d2 by (simp add: strip_def)
  then show ?thesis by simp
qed

lemma strip_sublist_trans: "sublist p (strip l) \<Longrightarrow> sublist p l"
  using strip_sublist sublist_order.order_trans by blast

lemma bullet_hd: "is_bullet l \<Longrightarrow> strip l \<noteq> [] \<and> hd (strip l) = 45"
  by (cases "strip l") (simp_all add: is_bullet_def startswith_def ascii_def)

lemma sublist_snoc_sep:
  assumes "sublist p (s @ [sep])" "p \<noteq> []" "last p \<noteq> sep"
  shows "sublist p s"
proof -
  from assms(1) consider "sublist p s" | "sublist p [sep]"
    | x1 x2 where "p = x1 @ x2" "suffix x1 s" "prefix x2 [sep]"
    by (auto simp add: sublist_append)
  then show ?thesis
  proof cases
    case 1
    then show ?thesis .
  next
    case 2
    then have "p = [] \<or> p = [sep]"
      by (metis list.exhaust prefix_Nil prefix_Cons sublist_Cons_right sublist_Nil_right)
    with assms(2,3) show ?thesis by auto
  next
    case 3
    from 3(3) have "x2 = [] \<or> x2 = [sep]"
      by (cases x2) (auto simp add: prefix_Cons)
    then show ?thesis
    proof
      assume "x2 = []"
      with 3 show ?thesis by auto
    next
      assume "x2 = [sep]"
      with 3(1) assms(3) show ?thesis by simp
    qed
  qed
qed

lemma sublist_bullet_concat:
  assumes "\<forall>l\<in>set bs. is_bullet l" "45 \<notin> set p" "p \<noteq> []" "last p \<noteq> sep"
    and "sublist p (concat (map (\<lambda>l. strip l @ [sep]) bs))"
  shows "\<exists>l\<in>set bs. sublist p (strip l)"
  using assms(1,5)
proof (induction bs)
  case Nil
  with assms(3) show ?case by simp
next
  case (Cons b bs)
  let ?rest = "concat (map (\<lambda>l. strip l @ [sep]) bs)"
  from Cons.prems(2) have "sublist p ((strip b @ [sep]) @ ?rest)" by simp
  then consider "sublist p (strip b @ [sep])" | "sublist p ?rest"
    | x1 x2 where "p = x1 @ x2" "suffix x1 (strip b @ [sep])" "prefix x2 ?rest" "x2 \<noteq> []"
    unfolding sublist_append [of p "strip b @ [sep]" ?rest]
    by (metis append_Nil2 suffix_imp_sublist)
  then show ?case
  proof cases
    case 1
    then have "sublist p (strip b)" using assms(3,4) by (rule sublist_snoc_sep)
    then show ?thesis by simp
  next
    case 2
    with Cons show ?thesis by simp
  next
    case 3
    from 3(3,4) have ne: "?rest \<noteq> []" by auto
    then obtain b' bs' where bs: "bs = b' # bs'" by (cases bs) auto
    with Cons.prems(1) have "strip b' \<noteq> [] \<and> hd (strip b') = 45" by (simp add: bullet_hd)
    then have "hd ?rest = 45" using bs by simp
    with 3(3,4) have "hd x2 = 45" by (cases x2) (auto simp add: prefix_def)
    with 3(1,4) have "45 \<in> set p" by (cases x2) auto
    with assms(2) show ?thesis by simp
  qed
qed

lemma hdr_facts:
  "45 \<notin> set hdr_solutions" "hdr_solutions \<noteq> []" "last hdr_solutions \<noteq> 10" "last hdr_solutions \<noteq> 32"
  "\<not> isspace (hd hdr_solutions)" "\<not> isspace (last hdr_solutions)"
  "45 \<notin> set hdr_to_solve" "hdr_to_solve \<noteq> []" "last hdr_to_solve \<noteq> 10" "last hdr_to_solve \<noteq> 32"
  "\<not> isspace (hd hdr_to_solve)" "\<not> isspace (last hdr_to_solve)"
  "45 \<notin> set hdr_pps" "hdr_pps \<noteq> []" "last hdr_pps \<noteq> 10" "last hdr_pps \<noteq> 32"
  "\<not> isspace (hd hdr_pps)" "\<not> isspace (last hdr_pps)"
  by (simp_all add: hdr_solutions_def hdr_to_solve_def hdr_pps_def ascii_def isspace_def)

lemma bullets_no_header:
  assumes "\<forall>l\<in>set bs. is_bullet l \<and> \<not> is_header l" "sep = 10 \<or> sep = 32"
  shows "\<not> is_header (concat (map (\<lambda>l. strip l @ [sep]) bs))"
proof
  let ?f = "concat (map (\<lambda>l. strip l @ [sep]) bs)"
  have b: "\<forall>l\<in>set bs. is_bullet l" using assms(1) by simp
  assume "is_header ?f"
  then consider "sublist hdr_solutions ?f" | "sublist hdr_to_solve ?f" | "sublist hdr_pps ?f"
    by (auto simp add: is_header_def py_in_def)
  then have "\<exists>l\<in>set bs. is_header l"
  proof cases
    case 1
    have "\<exists>l\<in>set bs. sublist hdr_solutions (strip l)"
      using assms(2) by (intro sublist_bullet_concat [OF b _ _ _ 1]) (auto simp add: hdr_facts)
    then show ?thesis using strip_sublist_trans by (auto simp add: is_header_def py_in_def)
  next
    case 2
    have "\<exists>l\<in>set bs. sublist hdr_to_solve (strip l)"
      using assms(2) by (intro sublist_bullet_concat [OF b _ _ _ 2]) (auto simp add: hdr_facts)
    then show ?thesis using strip_sublist_trans by (auto simp add: is_header_def py_in_def)
  next
    case 3
    have "\<exists>l\<in>set bs. sublist hdr_pps (strip l)"
      using assms(2) by (intro sublist_bullet_concat [OF b _ _ _ 3]) (auto simp add: hdr_facts)
    then show ?thesis using strip_sublist_trans by (auto simp add: is_header_def py_in_def)
  qed
  with assms(1) show False by blast
qed

lemma header_in_field:
  assumes "is_header h" "\<not> is_header f"
  shows "\<not> py_in h f \<and> \<not> py_in (strip h) f"
proof -
  have "is_header (strip h)"
    using assms(1) sublist_strip [of _ h] by (auto simp add: is_header_def py_in_def hdr_facts)
  moreover have "is_header f" if "is_header x" "sublist x f" for x
    using that sublist_order.order_trans by (auto simp add: is_header_def py_in_def)
  ultimately show ?thesis using assms by (auto simp add: py_in_def)
qed

section \<open>Properties of response parsing\<close>

text \<open>
  C6. The text made of the header line \<open>Proposed Problem Statement\<close> and the two lines
  \<open>Reduce latency.\<close> and \<open>Improve haptics.\<close> is parsed to a \<open>pps\<close> field that holds
  the two lines with one space between them and one space at the end; the other two
  fields are empty.
\<close>

theorem parse_response_two_pps_lines:
  "parse_response
     (ascii ''Proposed Problem Statement'' @ [10] @ ascii ''Reduce latency.'' @ [10] @
        ascii ''Improve haptics.'') =
   Inr (mk_info [] [] (ascii ''Reduce latency. Improve haptics. ''))"
  by (simp add: parse_response_view eval_defs)

text \<open>
  C4. Lines before the first header line add nothing: when the lines of the text are
  \<open>pre\<close> followed by \<open>rest\<close> and no line of \<open>pre\<close> contains a header phrase, parsing
  the text gives what parsing \<open>rest\<close> alone gives. A text that contains no header
  phrase at all is parsed, without error, to three empty fields.
\<close>

theorem lines_before_first_header_dropped:
  "(split_nl text = pre @ rest \<and> (\<forall>l\<in>set pre. \<not> is_header l) \<longrightarrow>
      parse_response text = parse_response (join_nl rest)) \<and>
   (\<not> py_in hdr_solutions text \<and> \<not> py_in hdr_to_solve text \<and> \<not> py_in hdr_pps text \<longrightarrow>
      parse_response text = Inr (mk_info [] [] []))"
proof (intro conjI impI)
  assume a: "split_nl text = pre @ rest \<and> (\<forall>l\<in>set pre. \<not> is_header l)"
  then have pre: "emit None pre k = []" "final_key None pre = None" for k
    by (simp_all add: emit_None_plain final_key_plain)
  have "emit None (split_nl (join_nl rest)) k = emit None rest k" for k
  proof (cases "rest = []")
    case True
    then show ?thesis by (simp add: chunk_None)
  next
    case False
    with a have "split_nl (join_nl rest) = rest"
      using split_nl_join_rest [of "text" pre rest] by blast
    then show ?thesis by simp
  qed
  then show "parse_response text = parse_response (join_nl rest)"
    using a pre by (simp add: parse_response_view emit_append)
next
  assume n: "\<not> py_in hdr_solutions text \<and> \<not> py_in hdr_to_solve text \<and> \<not> py_in hdr_pps text"
  have "\<not> is_header l" if "l \<in> set (split_nl text)" for l
  proof
    assume "is_header l"
    then consider "sublist hdr_solutions l" | "sublist hdr_to_solve l" | "sublist hdr_pps l"
      by (auto simp add: is_header_def py_in_def)
    then show False
      using n line_sublist [OF that] sublist_order.order_trans
      by cases (auto simp add: py_in_def)
  qed
  then show "parse_response text = Inr (mk_info [] [] [])"
    by (simp add: parse_response_view emit_None_plain)
qed

theorem lines_before_first_header_dropped_witness:
  "parse_response (ascii ''Summary'' @ [10] @ ascii ''Existing AR/VR Solutions:'' @ [10] @ ascii ''- a'') =
     parse_response (join_nl [ascii ''Existing AR/VR Solutions:'', ascii ''- a'']) \<and>
   parse_response (ascii ''- a'' @ [10] @ ascii ''b'') = Inr (mk_info [] [] [])"
  using lines_before_first_header_dropped
      [of "ascii ''Summary'' @ [10] @ ascii ''Existing AR/VR Solutions:'' @ [10] @ ascii ''- a''"
          "[ascii ''Summary'']" "[ascii ''Existing AR/VR Solutions:'', ascii ''- a'']"]
    lines_before_first_header_dropped [of "ascii ''- a'' @ [10] @ ascii ''b''"]
  by (simp add: eval_defs)

lemma emit_three_sections:
  assumes "header_key h1 = Some ''solutions''" "header_key h2 = Some ''to_solve''"
    "header_key h3 = Some ''pps''"
    and "\<forall>l\<in>set (b1 @ b2 @ b3). is_bullet l \<and> \<not> is_header l"
  shows "emit None ([h1] @ b1 @ [h2] @ b2 @ [h3] @ b3) k =
           emit (Some ''solutions'') b1 k @ emit (Some ''to_solve'') b2 k @ emit (Some ''pps'') b3 k"
proof -
  have p: "\<forall>l\<in>set b1. \<not> is_header l" "\<forall>l\<in>set b2. \<not> is_header l"
    using assms(4) by simp_all
  have "emit None ([h1] @ b1 @ [h2] @ b2 @ [h3] @ b3) k =
          emit (Some ''solutions'') (b1 @ h2 # b2 @ h3 # b3) k"
    using emit_header_first [OF assms(1)] by simp
  also have "\<dots> = emit (Some ''solutions'') b1 k @ emit (Some ''solutions'') (h2 # b2 @ h3 # b3) k"
    by (simp only: emit_append final_key_plain [OF p(1)])
  also have "emit (Some ''solutions'') (h2 # b2 @ h3 # b3) k =
      emit (Some ''to_solve'') (b2 @ h3 # b3) k"
    using assms(2) by (rule emit_header_first)
  also have "\<dots> = emit (Some ''to_solve'') b2 k @ emit (Some ''to_solve'') (h3 # b3) k"
    by (simp only: emit_append final_key_plain [OF p(2)])
  also have "emit (Some ''to_solve'') (h3 # b3) k = emit (Some ''pps'') b3 k"
    using assms(3) by (rule emit_header_first)
  finally show ?thesis .
qed

text \<open>
  C1. Let the lines of the text be a header line for \<open>solutions\<close> (a line containing
  \<open>Existing AR/VR Solutions\<close>), bullet lines \<open>b1\<close>, a header line for \<open>to_solve\<close>,
  bullet lines \<open>b2\<close>, a header line for \<open>pps\<close>, and bullet lines \<open>b3\<close>, where a
  bullet line is a line whose stripped form starts with \<open>-\<close> and that is not itself a
  header line. Then each field holds exactly the bullet lines that follow its header, in
  order and in stripped form, each followed by a newline (\<open>solutions\<close>, \<open>to_solve\<close>)
  or a space (\<open>pps\<close>); and no header line, stripped or not, occurs in any field.
\<close>

theorem three_sections_parsed:
  assumes "split_nl text = [h1] @ b1 @ [h2] @ b2 @ [h3] @ b3"
    and "header_key h1 = Some ''solutions''"
    and "header_key h2 = Some ''to_solve''"
    and "header_key h3 = Some ''pps''"
    and "\<forall>l\<in>set (b1 @ b2 @ b3). is_bullet l \<and> \<not> is_header l"
  shows "let s = concat (map (\<lambda>l. strip l @ [10]) b1);
             t = concat (map (\<lambda>l. strip l @ [10]) b2);
             p = concat (map (\<lambda>l. strip l @ ascii '' '') b3)
         in parse_response text = Inr (mk_info s t p) \<and>
            (\<forall>h\<in>{h1, h2, h3}. \<forall>f\<in>{s, t, p}. \<not> py_in h f \<and> \<not> py_in (strip h) f)"
proof -
  let ?s = "concat (map (\<lambda>l. strip l @ [10]) b1)"
  let ?t = "concat (map (\<lambda>l. strip l @ [10]) b2)"
  let ?p = "concat (map (\<lambda>l. strip l @ ascii '' '') b3)"
  have b: "\<forall>l\<in>set b1. is_bullet l \<and> \<not> is_header l" "\<forall>l\<in>set b2. is_bullet l \<and> \<not> is_header l"
    "\<forall>l\<in>set b3. is_bullet l \<and> \<not> is_header l"
    using assms(5) by simp_all
  then have f: "filter is_bullet b1 = b1" "filter is_bullet b2 = b2"
    by (simp_all add: filter_id_conv)
  have e: "emit None (split_nl text) k =
      emit (Some ''solutions'') b1 k @ emit (Some ''to_solve'') b2 k @ emit (Some ''pps'') b3 k" for k
    unfolding assms(1) using assms(2-5) by (rule emit_three_sections)
  have "emit None (split_nl text) ''solutions'' = ?s"
    unfolding e using b f by (simp add: emit_bullets_plain emit_other_plain)
  moreover have "emit None (split_nl text) ''to_solve'' = ?t"
    unfolding e using b f by (simp add: emit_bullets_plain emit_other_plain)
  moreover have "emit None (split_nl text) ''pps'' = ?p"
    unfolding e using b by (simp add: emit_pps_plain emit_other_plain)
  ultimately have r: "parse_response text = Inr (mk_info ?s ?t ?p)"
    by (simp add: parse_response_view)
  have nh: "\<not> is_header ?s" "\<not> is_header ?t" "\<not> is_header ?p"
    using bullets_no_header [OF b(1), of 10] bullets_no_header [OF b(2), of 10]
      bullets_no_header [OF b(3), of 32]
    by (simp_all add: ascii_def)
  have hs: "is_header h1" "is_header h2" "is_header h3"
    using assms(2-4) by (simp_all add: header_key_is_header)
  have "\<forall>h\<in>{h1, h2, h3}. \<forall>f\<in>{?s, ?t, ?p}. \<not> py_in h f \<and> \<not> py_in (strip h) f"
    using header_in_field [OF hs(1) nh(1)] header_in_field [OF hs(1) nh(2)]
      header_in_field [OF hs(1) nh(3)] header_in_field [OF hs(2) nh(1)]
      header_in_field [OF hs(2) nh(2)] header_in_field [OF hs(2) nh(3)]
      header_in_field [OF hs(3) nh(1)] header_in_field [OF hs(3) nh(2)]
      header_in_field [OF hs(3) nh(3)]
    by blast
  with r show ?thesis unfolding Let_def by blast
qed

theorem three_sections_parsed_witness:
  "parse_response
     (ascii ''Existing AR/VR Solutions:'' @ [10] @ ascii ''- a'' @ [10] @
      ascii ''Problems to be Solved:'' @ [10] @ ascii '' - b'' @ [10] @
      ascii ''Proposed Problem Statement:'' @ [10] @ ascii ''- c'') =
   Inr (mk_info (ascii ''- a'' @ [10]) (ascii ''- b'' @ [10]) (ascii ''- c ''))"
  using three_sections_parsed
    [of "ascii ''Existing AR/VR Solutions:'' @ [10] @ ascii ''- a'' @ [10] @
         ascii ''Problems to be Solved:'' @ [10] @ ascii '' - b'' @ [10] @
         ascii ''Proposed Problem Statement:'' @ [10] @ ascii ''- c''"
        "ascii ''Existing AR/VR Solutions:''" "[ascii ''- a'']"
        "ascii ''Problems to be Solved:''" "[ascii '' - b'']"
        "ascii ''Proposed Problem Statement:''" "[ascii ''- c'']"]
  by (simp add: eval_defs Let_def)

lemma mk_info_fields:
  "mk_info (f ''solutions'') (f ''to_solve'') (f ''pps'') k =
     (if k = ''solutions'' \<or> k = ''to_solve'' \<or> k = ''pps'' then Some (f k) else None)"
  by (simp add: mk_info_def)

lemma parse_response_fields:
  "\<exists>i. parse_response text = Inr i \<and>
     (\<forall>k. i k = (if k = ''solutions'' \<or> k = ''to_solve'' \<or> k = ''pps''
                 then Some (emit None (split_nl text) k) else None))"
  using mk_info_fields [of "emit None (split_nl text)"]
  by (simp add: parse_response_view)

lemma emit_at_line:
  assumes "header_key h = Some k" "\<forall>m\<in>set mid. \<not> is_header m" "\<not> is_header l"
  shows "emit None (pre @ [h] @ mid @ [l] @ post) k' =
           emit None (pre @ [h] @ mid) k' @ chunk (Some k) l k' @ emit (Some k) post k'"
proof -
  have fk: "final_key None (pre @ [h] @ mid) = Some k"
    using final_key_section [OF assms(1,2)] by simp
  have "emit None ((pre @ [h] @ mid) @ l # post) k' =
          emit None (pre @ [h] @ mid) k' @ emit (Some k) (l # post) k'"
    by (simp only: emit_append fk)
  then show ?thesis using assms(3) by (simp add: next_key_plain)
qed

lemma emit_without_line:
  assumes "header_key h = Some k" "\<forall>m\<in>set mid. \<not> is_header m"
  shows "emit None (pre @ [h] @ mid @ post) k' =
           emit None (pre @ [h] @ mid) k' @ emit (Some k) post k'"
proof -
  have fk: "final_key None (pre @ [h] @ mid) = Some k"
    using final_key_section [OF assms(1,2)] by simp
  have "emit None ((pre @ [h] @ mid) @ post) k' =
          emit None (pre @ [h] @ mid) k' @ emit (Some k) post k'"
    by (simp only: emit_append fk)
  then show ?thesis by simp
qed

lemma split_nl_join_part:
  assumes "split_nl text = ls" "set ms \<subseteq> set ls" "ms \<noteq> []"
  shows "split_nl (join_nl ms) = ms"
proof -
  have "\<forall>l\<in>set ms. 10 \<notin> set l"
    using split_nl_no_newline [of _ "text"] assms(1,2) by blast
  with assms(3) show ?thesis by (rule split_join_nl)
qed

text \<open>
  C5. Take a line \<open>l\<close> that is read while the \<open>solutions\<close> or the \<open>to_solve\<close> section
  is active: the last header line before it, \<open>h\<close>, opens section \<open>k\<close>, one of these two,
  and neither \<open>l\<close> nor the lines between \<open>h\<close> and \<open>l\<close> contain a header phrase.
  If the stripped form of \<open>l\<close> does not start with \<open>-\<close>, the line is absent from the
  result: parsing the text gives the same fields as parsing the text without the line.
  If it does start with \<open>-\<close>, the line is present in field \<open>k\<close>: that field is the
  field of the text without the line, with the stripped line and a newline inserted, and
  the other fields are the same.
\<close>

theorem non_bullet_dropped_bullet_kept:
  assumes "split_nl text = pre @ [h] @ mid @ [l] @ post"
    and "header_key h = Some k"
    and "k = ''solutions'' \<or> k = ''to_solve''"
    and "\<forall>m\<in>set mid. \<not> is_header m"
    and "\<not> is_header l"
  shows "\<exists>i i'. parse_response text = Inr i \<and>
           parse_response (join_nl (pre @ [h] @ mid @ post)) = Inr i' \<and>
           (if is_bullet l
            then (\<exists>a b. i k = Some (a @ strip l @ [10] @ b) \<and> i' k = Some (a @ b)) \<and>
                 (\<forall>k'. k' \<noteq> k \<longrightarrow> i k' = i' k')
            else i = i')"
proof -
  let ?A = "pre @ [h] @ mid"
  have sp: "split_nl (join_nl (pre @ [h] @ mid @ post)) = pre @ [h] @ mid @ post"
    using split_nl_join_part [OF assms(1), of "pre @ [h] @ mid @ post"] by auto
  obtain i where i: "parse_response text = Inr i"
    "\<And>k'. i k' = (if k' = ''solutions'' \<or> k' = ''to_solve'' \<or> k' = ''pps''
                 then Some (emit None ?A k' @ chunk (Some k) l k' @ emit (Some k) post k') else None)"
    using parse_response_fields [of "text"] emit_at_line [OF assms(2,4,5), of pre post]
    unfolding assms(1) by auto
  obtain i' where i': "parse_response (join_nl (pre @ [h] @ mid @ post)) = Inr i'"
    "\<And>k'. i' k' = (if k' = ''solutions'' \<or> k' = ''to_solve'' \<or> k' = ''pps''
                 then Some (emit None ?A k' @ emit (Some k) post k') else None)"
    using parse_response_fields [of "join_nl (pre @ [h] @ mid @ post)"]
      emit_without_line [OF assms(2,4), of pre post]
    unfolding sp by auto
  have kp: "k \<noteq> ''pps''" using assms(3) by auto
  show ?thesis
  proof (cases "is_bullet l")
    case True
    have c: "chunk (Some k) l k = strip l @ [10]" "\<And>k'. k' \<noteq> k \<Longrightarrow> chunk (Some k) l k' = []"
      using True kp assms(5) by (auto simp add: chunk_def)
    have "i k = Some (emit None ?A k @ strip l @ [10] @ emit (Some k) post k)"
      using i(2) [of k] c(1) assms(3) by auto
    moreover have "i' k = Some (emit None ?A k @ emit (Some k) post k)"
      using i'(2) [of k] assms(3) by auto
    moreover have "\<forall>k'. k' \<noteq> k \<longrightarrow> i k' = i' k'"
      using i(2) i'(2) c(2) by simp
    ultimately show ?thesis using True i(1) i'(1) by auto
  next
    case False
    then have "chunk (Some k) l k' = []" for k'
      using kp by (auto simp add: chunk_def)
    then have "i = i'" using i(2) i'(2) by (auto simp add: fun_eq_iff)
    then show ?thesis using False i(1) i'(1) by auto
  qed
qed

theorem non_bullet_dropped_bullet_kept_witness:
  "(\<exists>i i'. parse_response (ascii ''Existing AR/VR Solutions:'' @ [10] @ ascii '' - a'' @ [10] @ ascii ''- b'') = Inr i \<and>
      parse_response (join_nl ([] @ [ascii ''Existing AR/VR Solutions:''] @ [] @ [ascii ''- b''])) = Inr i' \<and>
      (\<exists>a b. i ''solutions'' = Some (a @ ascii ''- a'' @ [10] @ b) \<and> i' ''solutions'' = Some (a @ b)) \<and>
      (\<forall>k'. k' \<noteq> ''solutions'' \<longrightarrow> i k' = i' k')) \<and>
   (\<exists>i. parse_response (ascii ''Problems to be Solved:'' @ [10] @ ascii ''note'' @ [10] @ ascii ''- b'') = Inr i \<and>
      parse_response (join_nl ([] @ [ascii ''Problems to be Solved:''] @ [] @ [ascii ''- b''])) = Inr i)"
proof -
  have s: "strip (ascii '' - a'') = ascii ''- a''" "is_bullet (ascii '' - a'')" "\<not> is_bullet (ascii ''note'')"
    by (simp_all add: eval_defs)
  have 1: "split_nl (ascii ''Existing AR/VR Solutions:'' @ [10] @ ascii '' - a'' @ [10] @ ascii ''- b'') =
      [] @ [ascii ''Existing AR/VR Solutions:''] @ [] @ [ascii '' - a''] @ [ascii ''- b'']"
    by (simp add: ascii_def)
  have 2: "split_nl (ascii ''Problems to be Solved:'' @ [10] @ ascii ''note'' @ [10] @ ascii ''- b'') =
      [] @ [ascii ''Problems to be Solved:''] @ [] @ [ascii ''note''] @ [ascii ''- b'']"
    by (simp add: ascii_def)
  have h: "header_key (ascii ''Existing AR/VR Solutions:'') = Some ''solutions''"
    "header_key (ascii ''Problems to be Solved:'') = Some ''to_solve''"
    "\<not> is_header (ascii '' - a'')" "\<not> is_header (ascii ''note'')"
    by (simp_all add: eval_defs)
  show ?thesis
    using non_bullet_dropped_bullet_kept [OF 1 h(1) _ _ h(3)]
      non_bullet_dropped_bullet_kept [OF 2 h(2) _ _ h(4)]
    by (simp add: s)
qed

lemma strip_ends:
  assumes "strip l \<noteq> []"
  shows "\<not> isspace (hd (strip l)) \<and> \<not> isspace (last (strip l))"
proof -
  let ?d = "dropWhile isspace l"
  let ?r = "dropWhile isspace (rev ?d)"
  have s: "strip l = rev ?r" by (simp add: strip_def)
  with assms have r: "?r \<noteq> []" by simp
  have d: "?d \<noteq> []"
  proof
    assume "?d = []"
    then have "?r = []" by (simp only: rev.simps dropWhile.simps)
    with r show False by simp
  qed
  have "\<not> isspace (hd ?r)" using r by (rule hd_dropWhile)
  then have l: "\<not> isspace (last (strip l))" using r s by (simp add: last_rev)
  have "suffix ?r (rev ?d)" by (rule suffix_dropWhile)
  then obtain zs where "rev ?d = zs @ ?r" by (auto simp add: suffix_def)
  then have "last (rev ?d) = last ?r" using r by (metis last_appendR)
  then have "hd ?d = last ?r" using d by (simp add: last_rev)
  moreover have "\<not> isspace (hd ?d)" using d by (rule hd_dropWhile)
  ultimately have "\<not> isspace (hd (strip l))" using r s by (simp add: hd_rev)
  with l show ?thesis by simp
qed

lemma strip_id_iff:
  "strip l = l \<longleftrightarrow> l = [] \<or> (\<not> isspace (hd l) \<and> \<not> isspace (last l))"
proof
  assume "strip l = l"
  then show "l = [] \<or> (\<not> isspace (hd l) \<and> \<not> isspace (last l))"
    using strip_ends [of l] by auto
next
  assume a: "l = [] \<or> (\<not> isspace (hd l) \<and> \<not> isspace (last l))"
  show "strip l = l"
  proof (cases "l = []")
    case True
    then show ?thesis by (simp add: strip_def)
  next
    case False
    with a have h: "\<not> isspace (hd l)" "\<not> isspace (last l)" by simp_all
    have 1: "dropWhile isspace l = l" using False h(1) by (cases l) simp_all
    have "rev l \<noteq> []" "\<not> isspace (hd (rev l))" using False h(2) by (simp_all add: hd_rev)
    then have "dropWhile isspace (rev l) = rev l" by (cases "rev l") simp_all
    with 1 show ?thesis by (simp add: strip_def)
  qed
qed

text \<open>
  C7, as stated, fails: a kept line is not kept verbatim. In the text below the bullet
  line \<open>  - a\<close> (two leading spaces) is read under \<open>solutions\<close> and the line \<open>x  \<close>
  (two trailing spaces) under \<open>pps\<close>; the fields are \<open>- a\<close> plus a newline and \<open>x\<close>
  plus one space, and neither line occurs in its field.
\<close>

theorem kept_lines_not_verbatim:
  "parse_response
     (ascii ''Existing AR/VR Solutions:'' @ [10] @ ascii ''  - a'' @ [10] @
      ascii ''Proposed Problem Statement:'' @ [10] @ ascii ''x  '') =
     Inr (mk_info (ascii ''- a'' @ [10]) [] (ascii ''x '')) \<and>
   \<not> py_in (ascii ''  - a'') (ascii ''- a'' @ [10]) \<and>
   \<not> py_in (ascii ''x  '') (ascii ''x '')"
  by (simp add: parse_response_view eval_defs)

text \<open>
  C7, amended. Take a line \<open>l\<close> read while section \<open>k\<close> is active (the last header line
  before it opens \<open>k\<close>, and neither \<open>l\<close> nor the lines in between contain a header
  phrase), with \<open>k\<close> being \<open>pps\<close>, or \<open>l\<close> being a bullet line. Then field \<open>k\<close> holds
  the stripped form of \<open>l\<close>, followed by a space for \<open>pps\<close> and by a newline otherwise,
  right after what the lines before \<open>l\<close> have put there. The stripped form is the line
  itself exactly when the line is empty or has no whitespace at either end.
\<close>

theorem kept_lines_stripped:
  assumes "split_nl text = pre @ [h] @ mid @ [l] @ post"
    and "header_key h = Some k"
    and "\<forall>m\<in>set mid. \<not> is_header m"
    and "\<not> is_header l"
    and "k = ''pps'' \<or> is_bullet l"
  shows "(\<exists>i j a b. parse_response text = Inr i \<and>
            parse_response (join_nl (pre @ [h] @ mid)) = Inr j \<and> j k = Some a \<and>
            i k = Some (a @ strip l @ (if k = ''pps'' then ascii '' '' else [10]) @ b)) \<and>
         (strip l = l \<longleftrightarrow> l = [] \<or> (\<not> isspace (hd l) \<and> \<not> isspace (last l)))"
proof -
  let ?A = "pre @ [h] @ mid"
  have k3: "k = ''solutions'' \<or> k = ''to_solve'' \<or> k = ''pps''"
    using assms(2) by (rule header_key_cases)
  have sp: "split_nl (join_nl ?A) = ?A"
    using split_nl_join_part [OF assms(1), of ?A] by auto
  obtain i where i: "parse_response text = Inr i"
    "i k = Some (emit None ?A k @ chunk (Some k) l k @ emit (Some k) post k)"
    using parse_response_fields [of "text"] emit_at_line [OF assms(2,3,4), of pre post] k3
    unfolding assms(1) by auto
  obtain j where j: "parse_response (join_nl ?A) = Inr j" "j k = Some (emit None ?A k)"
    using parse_response_fields [of "join_nl ?A"] k3 unfolding sp by auto
  have "chunk (Some k) l k = strip l @ (if k = ''pps'' then ascii '' '' else [10])"
    using assms(4,5) by (auto simp add: chunk_def)
  with i j have "\<exists>i j a b. parse_response text = Inr i \<and>
            parse_response (join_nl (pre @ [h] @ mid)) = Inr j \<and> j k = Some a \<and>
            i k = Some (a @ strip l @ (if k = ''pps'' then ascii '' '' else [10]) @ b)"
    by (metis append.assoc)
  then show ?thesis using strip_id_iff [of l] by blast
qed

theorem kept_lines_stripped_witness:
  "(\<exists>i j a b. parse_response (ascii ''Proposed Problem Statement:'' @ [10] @ ascii ''x  '' @ [10] @ ascii ''y'') = Inr i \<and>
      parse_response (join_nl ([] @ [ascii ''Proposed Problem Statement:''] @ [])) = Inr j \<and>
      j ''pps'' = Some a \<and> i ''pps'' = Some (a @ ascii ''x'' @ ascii '' '' @ b)) \<and>
   (\<exists>i j a b. parse_response (ascii ''Problems to be Solved:'' @ [10] @ ascii ''- a'') = Inr i \<and>
      parse_response (join_nl ([] @ [ascii ''Problems to be Solved:''] @ [])) = Inr j \<and>
      j ''to_solve'' = Some a \<and> i ''to_solve'' = Some (a @ ascii ''- a'' @ [10] @ b)) \<and>
   strip (ascii ''- a'') = ascii ''- a'' \<and> strip (ascii ''x  '') \<noteq> ascii ''x  ''"
proof -
  have s: "strip (ascii ''x  '') = ascii ''x''" "strip (ascii ''- a'') = ascii ''- a''"
    "is_bullet (ascii ''- a'')"
    by (simp_all add: eval_defs)
  have 1: "split_nl (ascii ''Proposed Problem Statement:'' @ [10] @ ascii ''x  '' @ [10] @ ascii ''y'') =
      [] @ [ascii ''Proposed Problem Statement:''] @ [] @ [ascii ''x  ''] @ [ascii ''y'']"
    by (simp add: ascii_def)
  have 2: "split_nl (ascii ''Problems to be Solved:'' @ [10] @ ascii ''- a'') =
      [] @ [ascii ''Problems to be Solved:''] @ [] @ [ascii ''- a''] @ []"
    by (simp add: ascii_def)
  have h: "header_key (ascii ''Proposed Problem Statement:'') = Some ''pps''"
    "header_key (ascii ''Problems to be Solved:'') = Some ''to_solve''"
    "\<not> is_header (ascii ''x  '')" "\<not> is_header (ascii ''- a'')"
    by (simp_all add: eval_defs)
  have e: "\<not> (ascii ''x  '' = [] \<or> \<not> isspace (hd (ascii ''x  '')) \<and> \<not> isspace (last (ascii ''x  '')))"
    by (simp add: ascii_def isspace_def)
  show ?thesis
    using kept_lines_stripped [OF 1 h(1) _ h(3)] kept_lines_stripped [OF 2 h(2) _ h(4)] e
    by (simp add: s)
qed

lemma strip_no_newline: "10 \<notin> set l \<Longrightarrow> 10 \<notin> set (strip l)"
  using set_mono_sublist [OF strip_sublist, of l] by blast

lemma chunk_pps_shape:
  "10 \<notin> set l \<Longrightarrow>
   10 \<notin> set (chunk ck l ''pps'') \<and> (chunk ck l ''pps'' = [] \<or> last (chunk ck l ''pps'') = 32)"
  by (simp add: chunk_def ascii_def strip_no_newline)

lemma chunk_bullet_shape:
  "k \<noteq> ''pps'' \<Longrightarrow> chunk ck l k = [] \<or> last (chunk ck l k) = 10"
  by (simp add: chunk_def)

lemma emit_pps_shape:
  "\<forall>l\<in>set ls. 10 \<notin> set l \<Longrightarrow>
   10 \<notin> set (emit ck ls ''pps'') \<and> (emit ck ls ''pps'' = [] \<or> last (emit ck ls ''pps'') = 32)"
proof (induction ls arbitrary: ck)
  case Nil
  then show ?case by simp
next
  case (Cons l ls)
  then have c: "10 \<notin> set (chunk ck l ''pps'')"
    "chunk ck l ''pps'' = [] \<or> last (chunk ck l ''pps'') = 32"
    using chunk_pps_shape [of l ck] by simp_all
  from Cons have r: "10 \<notin> set (emit (next_key ck l) ls ''pps'')"
    "emit (next_key ck l) ls ''pps'' = [] \<or> last (emit (next_key ck l) ls ''pps'') = 32"
    by simp_all
  show ?case
  proof (cases "emit (next_key ck l) ls ''pps'' = []")
    case True
    then show ?thesis using c by simp
  next
    case False
    then show ?thesis using c(1) r by simp
  qed
qed

lemma emit_bullet_shape:
  "k \<noteq> ''pps'' \<Longrightarrow> emit ck ls k = [] \<or> last (emit ck ls k) = 10"
proof (induction ls arbitrary: ck)
  case Nil
  then show ?case by simp
next
  case (Cons l ls)
  show ?case
  proof (cases "emit (next_key ck l) ls k = []")
    case True
    then show ?thesis using chunk_bullet_shape [OF Cons.prems, of ck l] by simp
  next
    case False
    then show ?thesis using Cons.IH [OF Cons.prems, of "next_key ck l"] by simp
  qed
qed

text \<open>
  C10, as stated, fails where it says that a non-empty \<open>pps\<close> ends with a single
  space. Every line read under \<open>pps\<close> adds its stripped form and a space, an empty line
  as well: for a response that ends with a newline after the line \<open>x\<close>, the last piece
  of the split is the empty string and \<open>pps\<close> is \<open>x\<close> followed by two spaces.
\<close>

theorem pps_two_trailing_spaces:
  "parse_response (ascii ''Proposed Problem Statement:'' @ [10] @ ascii ''x'' @ [10]) =
     Inr (mk_info [] [] (ascii ''x'' @ [32, 32]))"
  by (simp add: parse_response_view eval_defs)

text \<open>
  C10, amended. For every text, parsing returns a record (no error) in which \<open>pps\<close>
  contains no newline and is empty or ends with a space, and \<open>solutions\<close> and
  \<open>to_solve\<close> are each empty or end with a newline.
\<close>

theorem parse_response_field_shape:
  "\<exists>s t p. parse_response text = Inr (mk_info s t p) \<and>
     10 \<notin> set p \<and> (p = [] \<or> last p = 32) \<and>
     (s = [] \<or> last s = 10) \<and> (t = [] \<or> last t = 10)"
proof -
  have "\<forall>l\<in>set (split_nl text). 10 \<notin> set l"
    using split_nl_no_newline by blast
  then show ?thesis
    using emit_pps_shape [of "split_nl text" None]
      emit_bullet_shape [of "''solutions''" None "split_nl text"]
      emit_bullet_shape [of "''to_solve''" None "split_nl text"]
    by (simp add: parse_response_view)
qed

section \<open>Properties of the pipeline\<close>

subsection \<open>Timestamps\<close>

lemma decimal_1: "n < 10 \<Longrightarrow> decimal n = [48 + n]"
  by (subst decimal.simps) simp

lemma decimal_2: "10 \<le> n \<Longrightarrow> n < 100 \<Longrightarrow> decimal n = [48 + n div 10, 48 + n mod 10]"
  by (subst decimal.simps) (simp add: decimal_1)

lemma decimal_3:
  "100 \<le> n \<Longrightarrow> n < 1000 \<Longrightarrow> decimal n = [48 + n div 100, 48 + n div 10 mod 10, 48 + n mod 10]"
  by (subst decimal.simps) (simp add: decimal_2 div_mult2_eq [symmetric])

lemma decimal_4:
  "1000 \<le> n \<Longrightarrow> n < 10000 \<Longrightarrow>
   decimal n = [48 + n div 1000, 48 + n div 100 mod 10, 48 + n div 10 mod 10, 48 + n mod 10]"
  by (subst decimal.simps) (simp add: decimal_3 div_mult2_eq [symmetric])

lemma shape_digits [simp]: "d < 10 \<Longrightarrow> shape ((48 + d) # s) = None # shape s"
  by (simp add: shape_def)

lemma shape_append: "shape (a @ b) = shape a @ shape b"
  by (simp add: shape_def)

lemma shape_zfill2: "n < 100 \<Longrightarrow> shape (zfill 2 (decimal n)) = [None, None]"
proof (cases "n < 10")
  case True
  then show ?thesis by (simp add: decimal_1 zfill_def shape_def)
next
  case False
  assume "n < 100"
  with False have "n div 10 < 10" by simp
  with False \<open>n < 100\<close> show ?thesis by (simp add: decimal_2 zfill_def shape_def)
qed

lemma mod10_le: "(x::nat) mod 10 \<le> 9"
proof -
  have "x mod 10 < 10" by simp
  then show ?thesis by linarith
qed

lemma shape_zfill4:
  assumes "1000 \<le> n" "n < 10000"
  shows "shape (zfill 4 (decimal n)) = [None, None, None, None]"
proof -
  have "n div 1000 < 10" using assms by simp
  then show ?thesis using assms by (simp add: decimal_4 zfill_def shape_def mod10_le)
qed

lemma shape_strftime:
  assumes "valid_datetime d" "1000 \<le> year d"
  shows "shape (strftime_ymd_hms d) = timestamp_shape"
proof -
  have "year d < 10000" "month d < 100" "day d < 100" "hour d < 100" "minute d < 100" "second d < 100"
    using assms(1) by (simp_all add: valid_datetime_def)
  then show ?thesis
    using assms(2)
    by (simp add: strftime_ymd_hms_def shape_append shape_zfill2 shape_zfill4 timestamp_shape_def)
      (simp add: shape_def ascii_def)
qed

subsection \<open>The prompt template\<close>

lemma join_nl_append:
  "xs \<noteq> [] \<Longrightarrow> ys \<noteq> [] \<Longrightarrow> join_nl (xs @ ys) = join_nl xs @ [10] @ join_nl ys"
proof (induction xs rule: join_nl.induct)
  case 1
  then show ?case by simp
next
  case (2 x)
  then show ?case by (simp add: join_nl_Cons)
next
  case (3 x y ys)
  then show ?case by simp
qed

lemma mem_sublist_join_nl: "l \<in> set ls \<Longrightarrow> sublist l (join_nl ls)"
proof (induction ls rule: join_nl.induct)
  case 1
  then show ?case by simp
next
  case (2 x)
  then show ?case by simp
next
  case (3 x y ys)
  have "sublist l (x @ [10] @ join_nl (y # ys))" if "sublist l (join_nl (y # ys))"
    using that by (metis append.assoc sublist_append_leftI sublist_order.order_trans)
  with 3 show ?case by auto
qed

lemma three_in_order:
  assumes "\<exists>l\<in>set A. sublist h1 l" "\<exists>l\<in>set B. sublist h2 l" "\<exists>l\<in>set C. sublist h3 l"
  shows "\<exists>a b c d. join_nl (A @ B @ C) = a @ h1 @ b @ h2 @ c @ h3 @ d"
proof -
  have ne: "A \<noteq> []" "B \<noteq> []" "C \<noteq> []" using assms by auto
  have "sublist h1 (join_nl A)" "sublist h2 (join_nl B)" "sublist h3 (join_nl C)"
    using assms mem_sublist_join_nl sublist_order.order_trans by blast+
  then obtain a1 a2 b1 b2 c1 c2 where
    "join_nl A = a1 @ h1 @ a2" "join_nl B = b1 @ h2 @ b2" "join_nl C = c1 @ h3 @ c2"
    unfolding sublist_def by blast
  then have "join_nl (A @ B @ C) = a1 @ h1 @ (a2 @ [10] @ b1) @ h2 @ (b2 @ [10] @ c1) @ h3 @ c2"
    using ne by (simp add: join_nl_append)
  then show ?thesis by blast
qed

lemma template_headers:
  "map header_key (filter is_header prompt_template_lines) =
     [Some ''solutions'', Some ''to_solve'', Some ''pps'', Some ''solutions'', Some ''to_solve'', Some ''pps'']"
  by (simp add: prompt_template_lines_def eval_defs)

lemma template_order:
  "\<exists>a b c d. join_nl prompt_template_lines = a @ hdr_solutions @ b @ hdr_to_solve @ c @ hdr_pps @ d"
proof -
  let ?A = "take 6 prompt_template_lines"
  let ?B = "take 2 (drop 6 prompt_template_lines)"
  let ?C = "drop 8 prompt_template_lines"
  have 1: "\<exists>l\<in>set ?A. sublist hdr_solutions l"
    by (simp add: prompt_template_lines_def eval_defs)
  have 2: "\<exists>l\<in>set ?B. sublist hdr_to_solve l"
    by (simp add: prompt_template_lines_def eval_defs)
  have 3: "\<exists>l\<in>set ?C. sublist hdr_pps l"
    by (simp add: prompt_template_lines_def eval_defs)
  have "?A @ ?B @ ?C = prompt_template_lines"
  proof -
    have "?B @ ?C = drop 6 prompt_template_lines"
      using append_take_drop_id [of 2 "drop 6 prompt_template_lines"] by (simp add: drop_drop)
    then show ?thesis by simp
  qed
  with three_in_order [OF 1 2 3] show ?thesis by simp
qed

subsection \<open>Runs\<close>

lemma dict_get_mk_info [simp]:
  "dict_get (mk_info s t p) ''pps'' = Inr p"
  "dict_get (mk_info s t p) ''solutions'' = Inr s"
  "dict_get (mk_info s t p) ''to_solve'' = Inr t"
  by (simp_all add: dict_get_def)

lemma world_simps [simp]:
  "prompts (st_error m w) = prompts w" "sheet_rows (st_error m w) = sheet_rows w"
  "ui_errors (st_error m w) = ui_errors w @ [m]" "progress (st_error m w) = progress w"
  "prompts (set_progress n w) = prompts w" "sheet_rows (set_progress n w) = sheet_rows w"
  "ui_errors (set_progress n w) = ui_errors w" "progress (set_progress n w) = progress w @ [n]"
  by (simp_all add: st_error_def set_progress_def)

lemma read_pdf_text_world:
  "prompts (snd (read_pdf_text sv b w)) = prompts w"
  "sheet_rows (snd (read_pdf_text sv b w)) = sheet_rows w"
  by (simp_all add: read_pdf_text_def split: sum.splits)

lemma main_no_text:
  assumes "falsy (fst (read_pdf_text sv (file_bytes f) (set_progress 20 (set_progress 0 w))))"
  shows "main sv cfg (Some f) True w =
           st_error (ascii ''Failed to extract text from PDF'')
             (snd (read_pdf_text sv (file_bytes f) (set_progress 20 (set_progress 0 w))))"
proof -
  obtain t w2 where r: "read_pdf_text sv (file_bytes f) (set_progress 20 (set_progress 0 w)) = (t, w2)"
    by (cases "read_pdf_text sv (file_bytes f) (set_progress 20 (set_progress 0 w))")
  with assms have "falsy t" by simp
  then show ?thesis using r by (simp add: main_def Let_def)
qed

lemma demo_services_simps:
  "pdf_pages demo_services = (\<lambda>b. if b = [] then Inl (ServiceError (ascii ''cannot open empty document''))
                         else if b = ''blank'' then Inr [[]]
                         else Inr [ascii ''page one'', ascii ''page two''])"
  "genai_configure demo_services = (\<lambda>key. None)"
  "generate_content demo_services = (\<lambda>prompt. Inr (ascii ''Proposed Problem Statement:'' @ [10] @ ascii ''x''))"
  "open_sheet1 demo_services = (\<lambda>creds name. Inr (Worksheet 0))"
  "append_row_error demo_services = (\<lambda>sheet r. None)"
  by (simp_all add: demo_services_def)

lemma demo_services_duplicate:
  "duplicate_widget demo_services = ServiceError (ascii ''multiple identical st.text_area widgets'')"
  by (simp add: demo_services_def)

text \<open>
  A complete run on the example services: the prompt is sent and the row appended; the
  response has no \<open>solutions\<close> and no \<open>to_solve\<close> lines, so these two panels hold the
  same (empty) text and placing the second one raises.
\<close>

lemma demo_run_calls_model:
  "prompts (main demo_services demo_config (Some \<lparr>file_name = ascii ''a.pdf'', file_bytes = ''%PDF''\<rparr>)
      True demo_world) = [build_prompt (ascii ''page one'' @ [10] @ ascii ''page two'')] \<and>
   length (sheet_rows (main demo_services demo_config
      (Some \<lparr>file_name = ascii ''a.pdf'', file_bytes = ''%PDF''\<rparr>) True demo_world) (Worksheet 0)) = 1 \<and>
   ui_errors (main demo_services demo_config
      (Some \<lparr>file_name = ascii ''a.pdf'', file_bytes = ''%PDF''\<rparr>) True demo_world) =
     [ascii ''An error occurred: '' @ ascii ''multiple identical st.text_area widgets'']"
proof -
  have q: "parse_response (ascii ''Proposed Problem Statement:'' @ 10 # ascii ''x'') =
     Inr (mk_info [] [] (ascii ''x ''))"
    by (simp add: parse_response_view eval_defs)
  have f: "\<not> falsy (Some (ascii ''page one'' @ 10 # ascii ''page two''))"
    "\<not> falsy (Some (ascii ''Proposed Problem Statement:'' @ 10 # ascii ''x''))"
    by (simp_all add: falsy_def ascii_def)
  have r: "show_results demo_services (mk_info [] [] (ascii ''x '')) =
             Some (ServiceError (ascii ''multiple identical st.text_area widgets''))"
    by (simp add: show_results_def text_area_def demo_services_duplicate)
  show ?thesis
    by (simp add: main_def Let_def read_pdf_text_def extract_info_with_gemini_def
        setup_google_sheets_def update_sheet_def demo_services_simps q f r str_of_def
        demo_world_def error_str_def)
qed

text \<open>
  C2, as stated, fails: the three middle fields of the appended row are not the parsed
  fields as \<open>parse_response\<close> returns them. The response below is parsed to a \<open>pps\<close>
  field \<open>x\<close> plus a space, and the row appended for it holds \<open>x\<close> without the space,
  since \<open>update_sheet\<close> strips each field.
\<close>

theorem update_sheet_row_not_parsed_fields:
  "parse_response (ascii ''Proposed Problem Statement:'' @ [10] @ ascii ''x'') =
     Inr (mk_info [] [] (ascii ''x '')) \<and>
   sheet_rows
     (snd (update_sheet demo_services (Worksheet 0) (mk_info [] [] (ascii ''x ''))
             (ascii ''paper'') (ascii ''link'') demo_world)) (Worksheet 0) =
     [[ascii ''paper'', ascii ''link'', ascii ''x'', [], [], ascii ''2026-11-03 09:05:07'']] \<and>
   ascii ''x'' \<noteq> ascii ''x ''"
proof -
  have t: "strftime_ymd_hms (now demo_services) = ascii ''2026-11-03 09:05:07''"
    by (simp add: demo_services_def strftime_ymd_hms_def zfill_def decimal_1 decimal_2 decimal_4 ascii_def)
  have p: "parse_response (ascii ''Proposed Problem Statement:'' @ [10] @ ascii ''x'') =
     Inr (mk_info [] [] (ascii ''x ''))"
    by (simp add: parse_response_view eval_defs)
  have s: "strip (ascii ''x '') = ascii ''x''" "strip [] = []"
    by (simp_all add: eval_defs)
  have a: "append_row_error demo_services = (\<lambda>sheet r. None)"
    by (simp add: demo_services_def)
  have r: "sheet_rows
     (snd (update_sheet demo_services (Worksheet 0) (mk_info [] [] (ascii ''x ''))
             (ascii ''paper'') (ascii ''link'') demo_world)) (Worksheet 0) =
     [[ascii ''paper'', ascii ''link'', ascii ''x'', [], [], ascii ''2026-11-03 09:05:07'']]"
    by (simp add: update_sheet_def Let_def t s a demo_world_def)
  have n: "ascii ''x'' \<noteq> ascii ''x ''"
    by (simp add: ascii_def)
  from p r n show ?thesis by (intro conjI)
qed

text \<open>
  C2, amended. For all parsed fields, document name and link, when the append call of
  the spreadsheet service succeeds and the clock shows a date with a four-digit year,
  \<open>update_sheet\<close> returns \<open>True\<close> and appends to the worksheet exactly one row of six
  fields: document name, document link, then \<open>pps\<close>, \<open>solutions\<close> and \<open>to_solve\<close>,
  each with leading and trailing whitespace stripped, then the timestamp, which has the
  shape \<open>YYYY-MM-DD HH:MM:SS\<close>.
\<close>

theorem update_sheet_appends_stripped_row:
  assumes "append_row_error sv sheet
             [pdf_name, document_link, strip p, strip s, strip t, strftime_ymd_hms (now sv)] = None"
    and "valid_datetime (now sv)"
    and "1000 \<le> year (now sv)"
  shows "update_sheet sv sheet (mk_info s t p) pdf_name document_link w =
           (True, w\<lparr>sheet_rows := (sheet_rows w)
              (sheet := sheet_rows w sheet @
                 [[pdf_name, document_link, strip p, strip s, strip t,
                   strftime_ymd_hms (now sv)]])\<rparr>) \<and>
         shape (strftime_ymd_hms (now sv)) = timestamp_shape"
  using assms by (simp add: update_sheet_def Let_def shape_strftime)

theorem update_sheet_appends_stripped_row_witness:
  "update_sheet demo_services (Worksheet 0) (mk_info (ascii ''- a'' @ [10]) [] (ascii ''x ''))
     (ascii ''paper'') (ascii ''link'') demo_world =
     (True, demo_world\<lparr>sheet_rows := (sheet_rows demo_world)
        (Worksheet 0 := sheet_rows demo_world (Worksheet 0) @
           [[ascii ''paper'', ascii ''link'', ascii ''x'', ascii ''- a'', [],
             ascii ''2026-11-03 09:05:07'']])\<rparr>) \<and>
   shape (ascii ''2026-11-03 09:05:07'') = timestamp_shape"
proof -
  have t: "strftime_ymd_hms (now demo_services) = ascii ''2026-11-03 09:05:07''"
    by (simp add: demo_services_def strftime_ymd_hms_def zfill_def decimal_1 decimal_2 decimal_4 ascii_def)
  have s: "strip (ascii ''x '') = ascii ''x''" "strip [] = []" "strip (ascii ''- a'' @ [10]) = ascii ''- a''"
    by (simp_all add: eval_defs)
  have a: "append_row_error demo_services = (\<lambda>sheet r. None)"
    and v: "valid_datetime (now demo_services)" "1000 \<le> year (now demo_services)"
    by (simp_all add: demo_services_def valid_datetime_def)
  show ?thesis
    using update_sheet_appends_stripped_row [of demo_services "Worksheet 0" "ascii ''paper''"
        "ascii ''link''" "ascii ''x ''" "ascii ''- a'' @ [10]" "[]" demo_world, OF _ v]
    by (simp add: a t s)
qed

text \<open>
  C3. The prompt sent by \<open>extract_info_with_gemini\<close> (one prompt, when configuring the
  client succeeds, and none otherwise) is the fixed template followed by the first 30000
  code points of the text and a newline: the embedded piece is a prefix of the text and has
  \<open>min 30000 (len text)\<close> code points. The template names the three headers in the order
  \<open>Existing AR/VR Solutions\<close>, \<open>Problems to be Solved\<close>, \<open>Proposed Problem Statement\<close>:
  as substrings one after the other, and line by line (in the numbered list and again in
  the format block).
\<close>

theorem prompt_embeds_text_prefix:
  "prompts (snd (extract_info_with_gemini sv text api_key w)) =
     prompts w @ (if genai_configure sv api_key = None then [build_prompt text] else []) \<and>
   build_prompt text = join_nl prompt_template_lines @ [10] @ take 30000 text @ [10] \<and>
   prefix (take 30000 text) text \<and> length (take 30000 text) = min 30000 (length text) \<and>
   (\<exists>a b c d. join_nl prompt_template_lines =
                a @ hdr_solutions @ b @ hdr_to_solve @ c @ hdr_pps @ d) \<and>
   map header_key (filter is_header prompt_template_lines) =
     [Some ''solutions'', Some ''to_solve'', Some ''pps'',
      Some ''solutions'', Some ''to_solve'', Some ''pps'']"
proof -
  have "prompts (snd (extract_info_with_gemini sv text api_key w)) =
     prompts w @ (if genai_configure sv api_key = None then [build_prompt text] else [])"
    by (simp add: extract_info_with_gemini_def Let_def split: option.splits sum.splits)
  moreover have "build_prompt text = join_nl prompt_template_lines @ [10] @ take 30000 text @ [10]"
    by (simp add: build_prompt_def)
  moreover have "prefix (take 30000 text) text" by (rule take_is_prefix)
  moreover have "length (take 30000 text) = min 30000 (length text)" by (simp add: min.commute)
  ultimately show ?thesis using template_order template_headers by blast
qed

text \<open>
  C8. In a run (a file is uploaded and the button pressed) in which \<open>read_pdf_text\<close>
  yields no text, that is \<open>None\<close> or the empty string, the run stops after the
  extraction step: no prompt is sent to the model, no row is appended to any worksheet,
  the progress bar stays at 20, and the last message shown is
  \<open>Failed to extract text from PDF\<close>.
\<close>

theorem extraction_failure_aborts:
  assumes "falsy (fst (read_pdf_text sv (file_bytes f) (set_progress 20 (set_progress 0 w))))"
  shows "prompts (main sv cfg (Some f) True w) = prompts w \<and>
         sheet_rows (main sv cfg (Some f) True w) = sheet_rows w \<and>
         progress (main sv cfg (Some f) True w) = progress w @ [0, 20] \<and>
         last (ui_errors (main sv cfg (Some f) True w)) = ascii ''Failed to extract text from PDF''"
proof -
  have "progress (snd (read_pdf_text sv b w')) = progress w'" for b w'
    by (simp add: read_pdf_text_def split: sum.splits)
  then show ?thesis
    unfolding main_no_text [OF assms] by (simp add: read_pdf_text_world)
qed

theorem extraction_failure_aborts_witness:
  "prompts (main demo_services demo_config (Some \<lparr>file_name = ascii ''a.pdf'', file_bytes = []\<rparr>) True
      demo_world) = prompts demo_world \<and>
   sheet_rows (main demo_services demo_config (Some \<lparr>file_name = ascii ''a.pdf'', file_bytes = []\<rparr>) True
      demo_world) = sheet_rows demo_world \<and>
   progress (main demo_services demo_config (Some \<lparr>file_name = ascii ''a.pdf'', file_bytes = []\<rparr>) True
      demo_world) = [0, 20]"
proof -
  have "falsy (fst (read_pdf_text demo_services (file_bytes \<lparr>file_name = ascii ''a.pdf'', file_bytes = []\<rparr>)
      (set_progress 20 (set_progress 0 demo_world))))"
    by (simp add: read_pdf_text_def demo_services_simps falsy_def)
  from extraction_failure_aborts [OF this, of demo_config]
  show ?thesis by (simp add: demo_world_def)
qed

text \<open>
  C9. When the decoder succeeds and the joined page texts are the empty string,
  \<open>read_pdf_text\<close> returns the empty string without reporting an error, and the
  orchestrator, which tests the text for truthiness, treats the run as an extraction
  failure: it shows \<open>Failed to extract text from PDF\<close> and stops before summarization,
  so no prompt is sent and no row is appended.
\<close>

theorem empty_text_treated_as_failure:
  assumes "pdf_pages sv (file_bytes f) = Inr pages"
    and "join_nl pages = []"
  shows "read_pdf_text sv (file_bytes f) (set_progress 20 (set_progress 0 w)) =
           (Some [], set_progress 20 (set_progress 0 w)) \<and>
         main sv cfg (Some f) True w =
           st_error (ascii ''Failed to extract text from PDF'') (set_progress 20 (set_progress 0 w)) \<and>
         prompts (main sv cfg (Some f) True w) = prompts w \<and>
         sheet_rows (main sv cfg (Some f) True w) = sheet_rows w"
proof -
  have r: "read_pdf_text sv (file_bytes f) (set_progress 20 (set_progress 0 w)) =
           (Some [], set_progress 20 (set_progress 0 w))"
    using assms by (simp add: read_pdf_text_def)
  then have "falsy (fst (read_pdf_text sv (file_bytes f) (set_progress 20 (set_progress 0 w))))"
    by (simp add: falsy_def)
  from main_no_text [OF this, of cfg] r show ?thesis by simp
qed

theorem empty_text_treated_as_failure_witness:
  "main demo_services demo_config (Some \<lparr>file_name = ascii ''a.pdf'', file_bytes = ''blank''\<rparr>) True
      demo_world =
     \<lparr>ui_errors = [ascii ''Failed to extract text from PDF''], progress = [0, 20], prompts = [],
      sheet_rows = (\<lambda>sheet. [])\<rparr>"
  using empty_text_treated_as_failure [of demo_services "\<lparr>file_name = ascii ''a.pdf'', file_bytes = ''blank''\<rparr>"
      "[[]]" demo_world demo_config]
  by (simp add: demo_services_simps demo_world_def st_error_def set_progress_def)

end
